theory Spec2Isabelle
  imports Main "HOL-Library.Word"
begin

section \<open>Token vesting: accounts, schedule creation and the claim instruction\<close>

text \<open>
  The vesting program is an Anchor program with three instructions. This theory embeds
  the two that touch an employee's schedule, \<open>create_employee_vesting\<close> and
  \<open>claim_tokens\<close>, from the Rust fragments of the technical documentation and the
  accounts guide: the account structs, the \<open>CreateEmployeeAccount\<close> constraints, the cliff
  guard, the vesting calculation, the zero guard, the \<open>transfer_checked\<close> call and the
  final update of \<open>total_withdrawn\<close>.

  Rust's \<open>i64\<close> is a 64-bit word read in two's complement (\<open>sint\<close>); \<open>as u64\<close> keeps the
  bits and reads them unsigned (\<open>uint\<close>). A \<open>Pubkey\<close> is 32 bytes.
\<close>

subsection \<open>Account data\<close>

type_synonym Pubkey = "256 word"
type_synonym i64 = "64 word"
type_synonym u64 = "64 word"
type_synonym u8 = "8 word"

record VestingAccount =
  owner :: Pubkey
  mint :: Pubkey
  treasury_token_account :: Pubkey
  company_name :: string
  treasury_bump :: u8
  bump :: u8

record EmployeeAccount =
  beneficiary :: Pubkey
  start_time :: i64
  end_time :: i64
  total_amount :: i64
  total_withdrawn :: i64
  cliff_time :: i64
  vesting_account :: Pubkey
  bump :: u8

subsection \<open>Failures\<close>

text \<open>
  The program's own error enum has two codes. An instruction can also stop because a
  check on its accounts fails, because the token program refuses the transfer, or because
  the Rust runtime panics on an arithmetic operation; none of these is a code of
  \<open>ErrorCode\<close>.
\<close>

datatype ErrorCode = ClaimNotAvailableYet | NothingToClaim

datatype panic = MultiplyOverflow | DivideByZero | DivideOverflow | AddOverflow

datatype failure =
    Custom ErrorCode
  | Panicked panic
  | TokenProgramError
  | AccountNotSigner
  | AccountNotSystemOwned
  | AccountOwnedByWrongProgram
  | InvalidProgramId
  | ConstraintSeeds
  | AccountAlreadyInUse
  | InsufficientFundsForRent
  | ConstraintHasOne

subsection \<open>Signed 64-bit arithmetic as Rust performs it\<close>

definition i64_MIN :: int where
  "i64_MIN = - (2 ^ 63)"

definition i64_MAX :: int where
  "i64_MAX = 2 ^ 63 - 1"

definition fits_i64 :: "int \<Rightarrow> bool" where
  "fits_i64 x = (i64_MIN \<le> x \<and> x \<le> i64_MAX)"

text \<open>\<open>i64::saturating_sub\<close> clamps the exact difference to the bounds of \<open>i64\<close>, not to zero.\<close>

definition saturating_sub :: "i64 \<Rightarrow> i64 \<Rightarrow> i64" where
  "saturating_sub a b = word_of_int (max i64_MIN (min i64_MAX (sint a - sint b)))"

text \<open>Rust's integer division rounds towards zero.\<close>

definition quot :: "int \<Rightarrow> int \<Rightarrow> int" where
  "quot a b = (if (a < 0) = (b < 0) then \<bar>a\<bar> div \<bar>b\<bar> else - (\<bar>a\<bar> div \<bar>b\<bar>))"

text \<open>
  The operator \<open>*\<close> on \<open>i64\<close> panics on overflow when the crate is built with overflow
  checks and wraps around otherwise. The build profile is not part of the sources, so
  the flag \<open>overflow_checks\<close> is a parameter of every function that multiplies or adds.
\<close>

definition i64_mul :: "bool \<Rightarrow> i64 \<Rightarrow> i64 \<Rightarrow> failure + i64" where
  "i64_mul overflow_checks a b =
     (if overflow_checks \<and> \<not> fits_i64 (sint a * sint b)
      then Inl (Panicked MultiplyOverflow)
      else Inr (a * b))"

definition i64_add :: "bool \<Rightarrow> i64 \<Rightarrow> i64 \<Rightarrow> failure + i64" where
  "i64_add overflow_checks a b =
     (if overflow_checks \<and> \<not> fits_i64 (sint a + sint b)
      then Inl (Panicked AddOverflow)
      else Inr (a + b))"

text \<open>The operator \<open>/\<close> panics on a zero divisor and on \<open>i64::MIN / -1\<close> in every build.\<close>

definition i64_div :: "i64 \<Rightarrow> i64 \<Rightarrow> failure + i64" where
  "i64_div a b =
     (if b = 0 then Inl (Panicked DivideByZero)
      else if sint a = i64_MIN \<and> sint b = - 1 then Inl (Panicked DivideOverflow)
      else Inr (word_of_int (quot (sint a) (sint b))))"

subsection \<open>The vesting calculation of \<open>claim_tokens\<close>\<close>

text \<open>
  \<^verbatim>\<open>
  let time_since_start = current_time.saturating_sub(start_time);
  let total_vesting_time = end_time.saturating_sub(start_time);
  let vested_amount = if current_time >= end_time {
      total_amount
  } else {
      (total_amount * time_since_start) / total_vesting_time
  };
  let claimable_amount = vested_amount.saturating_sub(total_withdrawn);
  \<close>
\<close>

definition vested_amount :: "bool \<Rightarrow> EmployeeAccount \<Rightarrow> i64 \<Rightarrow> failure + i64" where
  "vested_amount overflow_checks employee_account now =
     (let time_since_start = saturating_sub now (start_time employee_account);
          total_vesting_time =
            saturating_sub (end_time employee_account) (start_time employee_account)
      in if end_time employee_account \<le>s now then Inr (total_amount employee_account)
         else (case i64_mul overflow_checks (total_amount employee_account) time_since_start of
                 Inl e \<Rightarrow> Inl e
               | Inr product \<Rightarrow> i64_div product total_vesting_time))"

definition claimable_amount :: "bool \<Rightarrow> EmployeeAccount \<Rightarrow> i64 \<Rightarrow> failure + i64" where
  "claimable_amount overflow_checks employee_account now =
     (case vested_amount overflow_checks employee_account now of
        Inl e \<Rightarrow> Inl e
      | Inr vested \<Rightarrow> Inr (saturating_sub vested (total_withdrawn employee_account)))"

subsection \<open>The claim instruction\<close>

text \<open>
  The handler runs once Anchor has validated the accounts of \<open>ClaimTokens\<close> (the signer
  is the beneficiary of the employee account, which belongs to the vesting account); the
  handler is what is modelled. \<open>now\<close> is the clock's \<open>unix_timestamp\<close>. The token
  program is outside the repository: \<open>transfer_checked\<close> says whether it accepts a
  transfer of the given \<open>u64\<close> amount from the treasury, and a refusal is propagated by
  \<open>?\<close>. The handler's steps are, in order: the cliff guard, the vesting calculation, the
  zero guard, the transfer, and the only write,
  \<open>employee_account.total_withdrawn += claimable_amount\<close>. The model returns the result
  together with the employee account as the handler leaves it.
\<close>

definition claim_tokens ::
  "bool \<Rightarrow> (u64 \<Rightarrow> bool) \<Rightarrow> EmployeeAccount \<Rightarrow> i64 \<Rightarrow> (failure + unit) \<times> EmployeeAccount" where
  "claim_tokens overflow_checks transfer_checked employee_account now =
     (if now <s cliff_time employee_account
      then (Inl (Custom ClaimNotAvailableYet), employee_account)
      else (case claimable_amount overflow_checks employee_account now of
              Inl e \<Rightarrow> (Inl e, employee_account)
            | Inr claimable \<Rightarrow>
                if claimable = 0 then (Inl (Custom NothingToClaim), employee_account)
                else if \<not> transfer_checked claimable then (Inl TokenProgramError, employee_account)
                else (case i64_add overflow_checks (total_withdrawn employee_account) claimable of
                        Inl e \<Rightarrow> (Inl e, employee_account)
                      | Inr withdrawn \<Rightarrow>
                          (Inr (), employee_account\<lparr>total_withdrawn := withdrawn\<rparr>))))"

text \<open>
  A sequence of claim requests against one schedule: each request carries the clock
  reading and the token program's answer; a failed claim leaves the account as it was.
\<close>

fun claim_all ::
  "bool \<Rightarrow> EmployeeAccount \<Rightarrow> (i64 \<times> (u64 \<Rightarrow> bool)) list \<Rightarrow> EmployeeAccount" where
  "claim_all overflow_checks employee_account [] = employee_account"
| "claim_all overflow_checks employee_account ((now, transfer_checked) # requests) =
     claim_all overflow_checks
       (snd (claim_tokens overflow_checks transfer_checked employee_account now)) requests"

subsection \<open>Schedule creation\<close>

text \<open>
  \<^verbatim>\<open>
  pub struct CreateEmployeeAccount<'info> {
      #[account(mut)]
      pub owner: Signer<'info>,
      pub beneficiary: SystemAccount<'info>,
      #[account(has_one = owner)]
      pub vesting_account: Account<'info, VestingAccount>,
      #[account(init, space = 8 + EmployeeAccount::INIT_SPACE, payer = owner,
          seeds = [b"employee_vesting", beneficiary.key().as_ref(),
                   vesting_account.key().as_ref()],
          bump)]
      pub employee_account: Account<'info, EmployeeAccount>,
      pub system_program: Program<'info, System>,
  }
  \<close>
  What a request presents for these five accounts, as far as the checks read it: the key
  of the owner, whether it signed and its balance (it pays the rent); the key of the
  beneficiary and whether that account belongs to the system program; the key of the
  vesting account and its content when it is a \<open>VestingAccount\<close> of this program; the
  address given for the new employee account; whether the last account is the system
  program.
\<close>

record CreateEmployeeAccount =
  owner_key :: Pubkey
  owner_is_signer :: bool
  owner_lamports :: u64
  beneficiary_key :: Pubkey
  beneficiary_is_system_account :: bool
  vesting_account_key :: Pubkey
  vesting_account_data :: "VestingAccount option"
  employee_account_key :: Pubkey
  system_program_is_system :: bool

text \<open>
  Employee accounts are stored under their addresses. Two things the checks use are fixed
  by the runtime and not by the repository, and are parameters: \<open>find_program_address\<close>,
  which gives the address and the bump derived from the seeds
  \<open>(beneficiary, vesting account)\<close>, and \<open>rent\<close>, the rent-exempt minimum for the
  space of an employee account.

  The account types are checked first (\<open>Signer\<close>, \<open>SystemAccount\<close>,
  \<open>Account<VestingAccount>\<close>, \<open>Program<System>\<close>), then \<open>init\<close> (the address
  must be the derived one, must not hold an account yet, and the payer must afford the
  rent), then \<open>has_one = owner\<close>. A failed transaction leaves no trace, so the order
  decides only which failure is reported. The handler itself only writes the new record,
  with \<open>total_withdrawn: 0\<close> and the bump of the derived address; it stores its four
  arguments as they come and checks none of them.
\<close>

type_synonym employee_accounts = "Pubkey \<rightharpoonup> EmployeeAccount"

definition create_employee_vesting ::
  "(Pubkey \<Rightarrow> Pubkey \<Rightarrow> Pubkey \<times> u8) \<Rightarrow> u64 \<Rightarrow> employee_accounts \<Rightarrow> CreateEmployeeAccount \<Rightarrow>
   i64 \<Rightarrow> i64 \<Rightarrow> i64 \<Rightarrow> i64 \<Rightarrow> (failure + unit) \<times> employee_accounts" where
  "create_employee_vesting find_program_address rent accounts ctx
       start_time' end_time' total_amount' cliff_time' =
     (if \<not> owner_is_signer ctx then (Inl AccountNotSigner, accounts)
      else if \<not> beneficiary_is_system_account ctx then (Inl AccountNotSystemOwned, accounts)
      else (case vesting_account_data ctx of
              None \<Rightarrow> (Inl AccountOwnedByWrongProgram, accounts)
            | Some vesting \<Rightarrow>
                if \<not> system_program_is_system ctx then (Inl InvalidProgramId, accounts)
                else (case find_program_address (beneficiary_key ctx) (vesting_account_key ctx) of
                        (address, canonical_bump) \<Rightarrow>
                          if employee_account_key ctx \<noteq> address
                          then (Inl ConstraintSeeds, accounts)
                          else if accounts address \<noteq> None
                          then (Inl AccountAlreadyInUse, accounts)
                          else if owner_lamports ctx < rent
                          then (Inl InsufficientFundsForRent, accounts)
                          else if owner vesting \<noteq> owner_key ctx
                          then (Inl ConstraintHasOne, accounts)
                          else (Inr (),
                                accounts(address \<mapsto>
                                  \<lparr>beneficiary = beneficiary_key ctx,
                                   start_time = start_time',
                                   end_time = end_time',
                                   total_amount = total_amount',
                                   total_withdrawn = 0,
                                   cliff_time = cliff_time',
                                   vesting_account = vesting_account_key ctx,
                                   bump = canonical_bump\<rparr>)))))"

subsection \<open>Concrete schedules\<close>

text \<open>
  An employee account with the given times and amounts. The keys and the bump play no
  part in the calculation.
\<close>

definition schedule :: "i64 \<Rightarrow> i64 \<Rightarrow> i64 \<Rightarrow> i64 \<Rightarrow> i64 \<Rightarrow> EmployeeAccount" where
  "schedule start cliff finish amount withdrawn =
     \<lparr>beneficiary = 0, start_time = start, end_time = finish, total_amount = amount,
      total_withdrawn = withdrawn, cliff_time = cliff, vesting_account = 0, bump = 0\<rparr>"

text \<open>
  The walkthrough of the documentation: 48000 tokens over four years with a one-year
  cliff, times counted from the start of vesting.
\<close>

definition scenario_schedule :: EmployeeAccount where
  "scenario_schedule = schedule 0 31536000 126144000 48000 0"

text \<open>
  For the creation examples: a vesting account owned by key 7, a stand-in for the address
  derivation, and a request by that owner for beneficiary 3 that passes every account
  check when the rent is 1677360 lamports.
\<close>

definition acme :: VestingAccount where
  "acme = \<lparr>owner = 7, mint = 8, treasury_token_account = 9, company_name = ''Acme Corp'',
            treasury_bump = 254, VestingAccount.bump = 255\<rparr>"

definition example_address :: "Pubkey \<Rightarrow> Pubkey \<Rightarrow> Pubkey \<times> u8" where
  "example_address beneficiary_key' vesting_key = (1000 + beneficiary_key' + vesting_key, 253)"

definition example_request :: CreateEmployeeAccount where
  "example_request =
     \<lparr>owner_key = 7, owner_is_signer = True, owner_lamports = 10000000,
      beneficiary_key = 3, beneficiary_is_system_account = True,
      vesting_account_key = 2, vesting_account_data = Some acme,
      employee_account_key = 1005, system_program_is_system = True\<rparr>"

subsection \<open>Auxiliary notions for the statements\<close>

text \<open>
  The integer that the calculation yields when nothing overflows: the total once the end
  is reached, and before that the product of the total and the (saturated) time since
  start, divided towards zero by the (saturated) vesting time.
\<close>

definition vested_value :: "EmployeeAccount \<Rightarrow> i64 \<Rightarrow> int" where
  "vested_value s now =
     (if sint (end_time s) \<le> sint now then sint (total_amount s)
      else quot (sint (total_amount s) * sint (saturating_sub now (start_time s)))
                (sint (saturating_sub (end_time s) (start_time s))))"

text \<open>The clock readings of a sequence of requests never go back.\<close>

definition clock_nondecreasing :: "(i64 \<times> (u64 \<Rightarrow> bool)) list \<Rightarrow> bool" where
  "clock_nondecreasing requests = sorted_wrt (\<lambda>r r'. fst r \<le>s fst r') requests"

section \<open>Auxiliary lemmas\<close>

lemmas claim_eval =
  schedule_def scenario_schedule_def vested_amount_def claimable_amount_def claim_tokens_def
  saturating_sub_def i64_mul_def i64_add_def i64_div_def quot_def fits_i64_def i64_MIN_def
  i64_MAX_def Let_def word_sle_eq word_sless_alt

subsection \<open>Words and their signed readings\<close>

lemma sint_fits_i64: "fits_i64 (sint (a :: i64))"
  using sint_ge [of a] sint_lt [of a] by (simp add: fits_i64_def i64_MIN_def i64_MAX_def)

lemma sint_word_of_int_i64: "fits_i64 x \<Longrightarrow> sint (word_of_int x :: i64) = x"
  by (simp add: fits_i64_def i64_MIN_def i64_MAX_def int_word_sint)

lemma sint_saturating_sub:
  "sint (saturating_sub a b) = max i64_MIN (min i64_MAX (sint a - sint b))"
  unfolding saturating_sub_def
  by (rule sint_word_of_int_i64) (simp add: fits_i64_def i64_MIN_def i64_MAX_def)

lemma sint_mul_fits:
  assumes "fits_i64 (sint a * sint b)"
  shows "sint (a * b :: i64) = sint a * sint b"
proof -
  have "a * b = word_of_int (sint a * sint b)" by simp
  then show ?thesis using sint_word_of_int_i64 [OF assms] by simp
qed

lemma saturating_sub_self: "saturating_sub v v = 0"
  by (simp add: saturating_sub_def i64_MIN_def i64_MAX_def)

lemma saturating_sub_exact:
  "fits_i64 (sint v - sint w) \<Longrightarrow> saturating_sub v w = v - w"
  by (simp add: saturating_sub_def fits_i64_def)

lemma saturating_sub_zero: "saturating_sub v 0 = v"
  using saturating_sub_exact [of v 0] sint_fits_i64 [of v] by simp

lemma saturating_sub_mono:
  "sint a \<le> sint b \<Longrightarrow> sint (saturating_sub a c) \<le> sint (saturating_sub b c)"
  by (simp add: sint_saturating_sub)

lemma uint_negative_i64:
  assumes "sint (c :: i64) < 0"
  shows "uint c = 2 ^ 64 + sint c"
proof -
  have "- (2 ^ 63) \<le> sint c" using sint_ge [of c] by simp
  then have "0 \<le> sint c + 2 ^ 64" "sint c + 2 ^ 64 < 2 ^ 64" using assms by simp_all
  then have "(sint c + 2 ^ 64) mod 2 ^ 64 = sint c + 2 ^ 64" by (rule mod_pos_pos_trivial)
  moreover have "uint c = sint c mod 2 ^ 64" by (simp add: uint_sint take_bit_eq_mod)
  ultimately show ?thesis by simp
qed

lemma sint_wrapped_le:
  assumes "i64_MAX < p"
  shows "sint (word_of_int p :: i64) \<le> p - 2 ^ 64"
proof -
  define x where "x = p + 2 ^ 63"
  have "0 \<le> x - 2 ^ 64" using assms by (simp add: i64_MAX_def x_def)
  then have "(x - 2 ^ 64) mod 2 ^ 64 \<le> x - 2 ^ 64"
    by (rule zmod_le_nonneg_dividend)
  moreover have "(x - 2 ^ 64) mod 2 ^ 64 = x mod (2 ^ 64 :: int)"
    by (rule minus_mod_self2)
  moreover have "sint (word_of_int p :: i64) = x mod 2 ^ 64 - 2 ^ 63"
    by (simp add: int_word_sint x_def)
  ultimately show ?thesis by (simp add: x_def)
qed

subsection \<open>Division towards zero\<close>

lemma quot_nonneg: "0 \<le> a \<Longrightarrow> 0 < b \<Longrightarrow> quot a b = a div b"
  by (simp add: quot_def)

lemma quot_nonpos: "a \<le> 0 \<Longrightarrow> 0 < b \<Longrightarrow> quot a b = - ((- a) div b)"
  by (cases "a = 0") (simp_all add: quot_def)

lemma quot_mono:
  assumes "0 < b" and "a \<le> a'"
  shows "quot a b \<le> quot a' b"
proof (cases "0 \<le> a")
  case True
  then show ?thesis using assms by (simp add: quot_nonneg zdiv_mono1)
next
  case False
  note neg = this
  show ?thesis
  proof (cases "0 \<le> a'")
    case True
    have "quot a b \<le> 0"
      using neg assms(1) by (simp add: quot_nonpos pos_imp_zdiv_nonneg_iff)
    moreover have "0 \<le> quot a' b"
      using True assms(1) by (simp add: quot_nonneg pos_imp_zdiv_nonneg_iff)
    ultimately show ?thesis by simp
  next
    case False
    then have "(- a') div b \<le> (- a) div b" using assms by (simp add: zdiv_mono1)
    then show ?thesis using neg False assms(1) by (simp add: quot_nonpos)
  qed
qed

lemma quot_fits:
  assumes "fits_i64 a" and "0 < b"
  shows "fits_i64 (quot a b)"
proof (cases "0 \<le> a")
  case True
  then have "0 \<le> a div b" "a div b \<le> a"
    using assms(2) zdiv_mono2 [of a 1 b] by (simp_all add: pos_imp_zdiv_nonneg_iff)
  then show ?thesis using True assms by (simp add: quot_nonneg fits_i64_def i64_MIN_def)
next
  case False
  then have "0 \<le> (- a) div b" "(- a) div b \<le> - a"
    using assms(2) zdiv_mono2 [of "- a" 1 b] by (simp_all add: pos_imp_zdiv_nonneg_iff)
  then show ?thesis using False assms by (simp add: quot_nonpos fits_i64_def i64_MAX_def)
qed

lemma quot_mult_self: "0 \<le> a \<Longrightarrow> 0 < b \<Longrightarrow> quot (a * b) b = a"
  by (simp add: quot_nonneg)

lemma wrapped_quot_less:
  assumes "i64_MAX < p" and "0 < d" and "d \<le> i64_MAX"
  shows "quot (sint (word_of_int p :: i64)) d < p div d"
proof -
  define w where "w = sint (word_of_int p :: i64)"
  have wle: "w \<le> p - 2 ^ 64" unfolding w_def using assms(1) by (rule sint_wrapped_le)
  have pd: "0 < p div d" using assms by (simp add: pos_imp_zdiv_pos_iff)
  show ?thesis
  proof (cases "0 \<le> w")
    case True
    have "w div d \<le> (p - 2 ^ 64) div d" using wle assms(2) by (rule zdiv_mono1)
    moreover have "(p - 2 ^ 64) div d + 1 = (p - 2 ^ 64 + d) div d"
      using assms(2) div_add_self2 [of d "p - 2 ^ 64"] by simp
    moreover have "(p - 2 ^ 64 + d) div d \<le> p div d"
      using assms(2,3) by (intro zdiv_mono1) (simp_all add: i64_MAX_def)
    ultimately have "w div d < p div d" by linarith
    then show ?thesis using True assms(2) by (simp add: quot_nonneg flip: w_def)
  next
    case False
    then have "0 \<le> (- w) div d" using assms(2) by (simp add: pos_imp_zdiv_nonneg_iff)
    then have "quot w d \<le> 0" using False assms(2) by (simp add: quot_nonpos)
    then show ?thesis using pd by (simp flip: w_def)
  qed
qed

subsection \<open>The vested amount\<close>

lemma vested_amount_fully:
  "sint (end_time s) \<le> sint now \<Longrightarrow> vested_amount oc s now = Inr (total_amount s)"
  by (simp add: vested_amount_def word_sle_eq Let_def)

lemma vested_amount_linear:
  assumes "sint now < sint (end_time s)"
    and "fits_i64 (sint (total_amount s) * sint (saturating_sub now (start_time s)))"
    and "0 < sint (saturating_sub (end_time s) (start_time s))"
  shows "vested_amount oc s now =
           Inr (word_of_int (quot (sint (total_amount s) * sint (saturating_sub now (start_time s)))
                                  (sint (saturating_sub (end_time s) (start_time s)))))"
proof -
  have nz: "saturating_sub (end_time s) (start_time s) \<noteq> 0"
    using assms(3) by auto
  have nm: "sint (saturating_sub (end_time s) (start_time s)) \<noteq> - 1"
    using assms(3) by simp
  show ?thesis
    using assms(1,2) nz nm
    by (simp add: vested_amount_def Let_def word_sle_eq i64_mul_def i64_div_def sint_mul_fits)
qed

lemma vested_amount_overflow:
  assumes "sint now < sint (end_time s)"
    and "\<not> fits_i64 (sint (total_amount s) * sint (saturating_sub now (start_time s)))"
  shows "vested_amount True s now = Inl (Panicked MultiplyOverflow)"
  using assms by (simp add: vested_amount_def Let_def word_sle_eq i64_mul_def)

lemma vested_amount_unchecked:
  assumes "sint now < sint (end_time s)"
    and "0 < sint (saturating_sub (end_time s) (start_time s))"
  shows "\<exists>v. vested_amount False s now = Inr v \<and>
             sint v = quot (sint (word_of_int (sint (total_amount s)
                                    * sint (saturating_sub now (start_time s))) :: i64))
                           (sint (saturating_sub (end_time s) (start_time s)))"
proof -
  let ?d = "saturating_sub (end_time s) (start_time s)"
  let ?w = "total_amount s * saturating_sub now (start_time s)"
  have w: "?w = word_of_int (sint (total_amount s) * sint (saturating_sub now (start_time s)))"
    by simp
  have nz: "?d \<noteq> 0" using assms(2) by auto
  have nm: "sint ?d \<noteq> - 1" using assms(2) by simp
  have "vested_amount False s now = Inr (word_of_int (quot (sint ?w) (sint ?d)))"
    using assms(1) nz nm by (simp add: vested_amount_def Let_def word_sle_eq i64_mul_def i64_div_def)
  moreover have "sint (word_of_int (quot (sint ?w) (sint ?d)) :: i64) = quot (sint ?w) (sint ?d)"
    using sint_word_of_int_i64 [OF quot_fits [OF sint_fits_i64 assms(2)]] .
  ultimately show ?thesis unfolding w by simp
qed

lemma vested_amount_checked_fits:
  "vested_amount True s now = Inr v \<Longrightarrow> sint now < sint (end_time s) \<Longrightarrow>
     fits_i64 (sint (total_amount s) * sint (saturating_sub now (start_time s)))"
  by (auto simp: vested_amount_def i64_mul_def Let_def word_sle_eq split: if_splits)

lemma vested_amount_total_withdrawn [simp]:
  "vested_amount oc (s\<lparr>total_withdrawn := x\<rparr>) now = vested_amount oc s now"
  by (simp add: vested_amount_def)

lemma sint_time_since_start:
  assumes "sint (start_time s) \<le> sint now"
    and "0 \<le> sint (total_amount s)"
    and "sint (total_amount s) * (sint now - sint (start_time s)) \<le> i64_MAX"
  shows "sint (total_amount s) * sint (saturating_sub now (start_time s)) =
         sint (total_amount s) * (sint now - sint (start_time s))"
proof (cases "sint (total_amount s) = 0")
  case True
  then show ?thesis by simp
next
  case False
  then have "1 \<le> sint (total_amount s)" using assms(2) by simp
  then have "1 * (sint now - sint (start_time s)) \<le> sint (total_amount s) * (sint now - sint (start_time s))"
    using assms(1) by (intro mult_right_mono) simp_all
  then have "sint now - sint (start_time s) \<le> i64_MAX" using assms(3) by simp
  then have "sint (saturating_sub now (start_time s)) = sint now - sint (start_time s)"
    using assms(1) by (simp add: sint_saturating_sub i64_MIN_def)
  then show ?thesis by simp
qed

lemma sint_total_vesting_time:
  assumes "sint (start_time s) \<le> sint (end_time s)"
    and "sint (end_time s) - sint (start_time s) \<le> i64_MAX"
  shows "sint (saturating_sub (end_time s) (start_time s)) = sint (end_time s) - sint (start_time s)"
  using assms by (simp add: sint_saturating_sub i64_MIN_def)

lemma total_vesting_time_pos:
  "sint (start_time s) < sint (end_time s) \<Longrightarrow>
     0 < sint (saturating_sub (end_time s) (start_time s))"
  by (simp add: sint_saturating_sub i64_MIN_def i64_MAX_def)

lemma product_exact:
  assumes "0 \<le> sint (total_amount s)"
    and "fits_i64 (sint (total_amount s) * (sint now - sint (start_time s)))"
  shows "sint (total_amount s) * sint (saturating_sub now (start_time s)) =
         sint (total_amount s) * (sint now - sint (start_time s))"
proof (cases "sint (total_amount s) = 0")
  case True
  then show ?thesis by simp
next
  case False
  define T where "T = sint (total_amount s)"
  define e where "e = sint now - sint (start_time s)"
  define p where "p = T * e"
  have T1: "1 \<le> T" using False assms(1) by (simp add: T_def)
  have pfits: "i64_MIN \<le> p" "p \<le> i64_MAX"
    using assms(2) by (simp_all add: fits_i64_def p_def T_def e_def)
  have "fits_i64 e"
  proof (cases "0 \<le> e")
    case True
    then have "1 * e \<le> T * e" using T1 by (intro mult_right_mono) simp_all
    then have "e \<le> p" by (simp add: p_def)
    then show ?thesis
      using True pfits(2) unfolding fits_i64_def i64_MIN_def i64_MAX_def by linarith
  next
    case False
    then have "T * e \<le> 1 * e" using T1 by (intro mult_right_mono_neg) simp_all
    then have "p \<le> e" by (simp add: p_def)
    then show ?thesis
      using False pfits(1) unfolding fits_i64_def i64_MIN_def i64_MAX_def by linarith
  qed
  then have "sint (saturating_sub now (start_time s)) = e"
    by (simp add: sint_saturating_sub fits_i64_def e_def)
  then show ?thesis by (simp add: e_def)
qed

lemma vested_amount_exact:
  assumes "sint now < sint (end_time s)"
    and "sint (start_time s) \<le> sint now"
    and "0 \<le> sint (total_amount s)"
    and "sint (end_time s) - sint (start_time s) \<le> i64_MAX"
    and "sint (total_amount s) * (sint now - sint (start_time s)) \<le> i64_MAX"
  shows "\<exists>v. vested_amount oc s now = Inr v \<and>
             sint v = (sint (total_amount s) * (sint now - sint (start_time s)))
                        div (sint (end_time s) - sint (start_time s))"
proof -
  let ?T = "sint (total_amount s)"
  let ?p = "?T * (sint now - sint (start_time s))"
  let ?d = "sint (end_time s) - sint (start_time s)"
  have p: "?T * sint (saturating_sub now (start_time s)) = ?p"
    using assms(2,3,5) by (rule sint_time_since_start)
  have d: "sint (saturating_sub (end_time s) (start_time s)) = ?d"
    using assms(1,2,4) by (intro sint_total_vesting_time) simp_all
  have dpos: "0 < ?d" using assms(1,2) by simp
  have p0: "0 \<le> ?p" using assms(2,3) by simp
  then have pfits: "fits_i64 ?p" using assms(5) by (simp add: fits_i64_def i64_MIN_def)
  have "vested_amount oc s now = Inr (word_of_int (quot ?p ?d))"
    using vested_amount_linear [of now s oc] assms(1) pfits dpos by (simp add: p d)
  moreover have "sint (word_of_int (quot ?p ?d) :: i64) = ?p div ?d"
    using sint_word_of_int_i64 [OF quot_fits [OF pfits dpos]] quot_nonneg [OF p0 dpos] by simp
  ultimately show ?thesis by simp
qed

lemma vested_amount_value:
  assumes "fits_i64 (sint (total_amount s) * sint (saturating_sub now (start_time s)))"
    and "sint (start_time s) < sint (end_time s)"
  shows "\<exists>v. vested_amount oc s now = Inr v \<and> sint v = vested_value s now"
proof (cases "sint (end_time s) \<le> sint now")
  case True
  then show ?thesis by (simp add: vested_amount_fully vested_value_def)
next
  case False
  have dpos: "0 < sint (saturating_sub (end_time s) (start_time s))"
    using assms(2) by (rule total_vesting_time_pos)
  have "vested_amount oc s now =
          Inr (word_of_int (quot (sint (total_amount s) * sint (saturating_sub now (start_time s)))
                                 (sint (saturating_sub (end_time s) (start_time s)))))"
    using False assms(1) dpos by (intro vested_amount_linear) simp_all
  then show ?thesis
    using False sint_word_of_int_i64 [OF quot_fits [OF assms(1) dpos]]
    by (simp add: vested_value_def)
qed

lemma vested_amount_returns:
  assumes "0 \<le> sint (total_amount s)" and "sint (start_time s) < sint (end_time s)"
    and "sint (end_time s) \<le> sint now
           \<or> fits_i64 (sint (total_amount s) * (sint now - sint (start_time s)))"
  shows "\<exists>v. vested_amount oc s now = Inr v \<and> sint v = vested_value s now"
proof (cases "sint (end_time s) \<le> sint now")
  case True
  then show ?thesis by (simp add: vested_amount_fully vested_value_def)
next
  case False
  then have f: "fits_i64 (sint (total_amount s) * (sint now - sint (start_time s)))"
    using assms(3) by simp
  have "fits_i64 (sint (total_amount s) * sint (saturating_sub now (start_time s)))"
    unfolding product_exact [OF assms(1) f] by (rule f)
  then show ?thesis using assms(2) by (rule vested_amount_value)
qed

lemma vested_value_total_withdrawn [simp]:
  "vested_value (s\<lparr>total_withdrawn := x\<rparr>) now = vested_value s now"
  by (simp add: vested_value_def)

lemma vested_value_le_total:
  assumes "0 \<le> sint (total_amount s)" and "sint (start_time s) < sint (end_time s)"
  shows "vested_value s now \<le> sint (total_amount s)"
proof (cases "sint (end_time s) \<le> sint now")
  case True
  then show ?thesis by (simp add: vested_value_def)
next
  case False
  let ?T = "sint (total_amount s)"
  let ?e = "sint (saturating_sub now (start_time s))"
  let ?d = "sint (saturating_sub (end_time s) (start_time s))"
  have dpos: "0 < ?d" using assms(2) by (rule total_vesting_time_pos)
  have "?e \<le> ?d" using False by (intro saturating_sub_mono) simp
  then have "?T * ?e \<le> ?T * ?d" using assms(1) by (rule mult_left_mono)
  then have "quot (?T * ?e) ?d \<le> quot (?T * ?d) ?d" using dpos by (intro quot_mono)
  then show ?thesis using False quot_mult_self [OF assms(1) dpos] by (simp add: vested_value_def)
qed

lemma vested_value_mono:
  assumes "0 \<le> sint (total_amount s)" and "sint (start_time s) < sint (end_time s)"
    and "sint now1 \<le> sint now2"
  shows "vested_value s now1 \<le> vested_value s now2"
proof (cases "sint (end_time s) \<le> sint now2")
  case True
  then show ?thesis
    using vested_value_le_total [OF assms(1,2), of now1] by (simp add: vested_value_def)
next
  case False
  let ?T = "sint (total_amount s)"
  let ?d = "sint (saturating_sub (end_time s) (start_time s))"
  have dpos: "0 < ?d" using assms(2) by (rule total_vesting_time_pos)
  have "sint (saturating_sub now1 (start_time s)) \<le> sint (saturating_sub now2 (start_time s))"
    using assms(3) by (rule saturating_sub_mono)
  then have "?T * sint (saturating_sub now1 (start_time s))
               \<le> ?T * sint (saturating_sub now2 (start_time s))"
    using assms(1) by (rule mult_left_mono)
  then have "quot (?T * sint (saturating_sub now1 (start_time s))) ?d
               \<le> quot (?T * sint (saturating_sub now2 (start_time s))) ?d"
    using dpos by (intro quot_mono)
  then show ?thesis using False assms(3) by (simp add: vested_value_def)
qed

lemma vested_value_nonneg:
  assumes "0 \<le> sint (total_amount s)" and "sint (start_time s) < sint (end_time s)"
    and "sint (start_time s) \<le> sint now"
  shows "0 \<le> vested_value s now"
proof (cases "sint (end_time s) \<le> sint now")
  case True
  then show ?thesis using assms(1) by (simp add: vested_value_def)
next
  case False
  have dpos: "0 < sint (saturating_sub (end_time s) (start_time s))"
    using assms(2) by (rule total_vesting_time_pos)
  have "0 \<le> sint (saturating_sub now (start_time s))"
    using assms(3) by (simp add: sint_saturating_sub i64_MIN_def i64_MAX_def)
  then have "0 \<le> sint (total_amount s) * sint (saturating_sub now (start_time s))"
    using assms(1) by simp
  then show ?thesis
    using False dpos by (simp add: vested_value_def quot_nonneg pos_imp_zdiv_nonneg_iff)
qed

lemma vested_amount_Inr_value:
  assumes "0 \<le> sint (total_amount s)"
    and "sint (start_time s) < sint (end_time s)"
    and "sint (start_time s) \<le> sint now"
    and "oc \<or> sint (end_time s) \<le> sint now
           \<or> sint (total_amount s) * (sint now - sint (start_time s)) \<le> i64_MAX"
    and "vested_amount oc s now = Inr v"
  shows "sint v = vested_value s now"
proof (cases "sint (end_time s) \<le> sint now")
  case True
  then show ?thesis using assms(5) by (simp add: vested_amount_fully vested_value_def)
next
  case False
  have "fits_i64 (sint (total_amount s) * sint (saturating_sub now (start_time s)))"
  proof (cases oc)
    case True
    then show ?thesis using assms(5) False by (intro vested_amount_checked_fits [of s now v]) simp_all
  next
    case oc: False
    have "0 \<le> sint (total_amount s) * (sint now - sint (start_time s))"
      using assms(1,3) by simp
    then have f: "fits_i64 (sint (total_amount s) * (sint now - sint (start_time s)))"
      using assms(4) oc False by (simp add: fits_i64_def i64_MIN_def)
    show ?thesis unfolding product_exact [OF assms(1) f] by (rule f)
  qed
  then obtain v' where "vested_amount oc s now = Inr v'" "sint v' = vested_value s now"
    using vested_amount_value [OF _ assms(2)] by blast
  then show ?thesis using assms(5) by simp
qed

subsection \<open>One claim, and a sequence of claims\<close>

lemma claim_before_cliff:
  "sint now < sint (cliff_time s) \<Longrightarrow>
     claim_tokens oc xfer s now = (Inl (Custom ClaimNotAvailableYet), s)"
  by (simp add: claim_tokens_def word_sless_alt)

lemma claim_nothing:
  "sint (cliff_time s) \<le> sint now \<Longrightarrow> claimable_amount oc s now = Inr 0 \<Longrightarrow>
     claim_tokens oc xfer s now = (Inl (Custom NothingToClaim), s)"
  by (simp add: claim_tokens_def word_sless_alt)

lemma claim_tokens_success:
  assumes "claim_tokens oc xfer s now = (Inr (), s')"
  shows "\<exists>v. vested_amount oc s now = Inr v \<and> \<not> now <s cliff_time s \<and>
             saturating_sub v (total_withdrawn s) \<noteq> 0 \<and>
             xfer (saturating_sub v (total_withdrawn s)) \<and>
             s' = s\<lparr>total_withdrawn := total_withdrawn s + saturating_sub v (total_withdrawn s)\<rparr>"
  using assms
  by (auto simp: claim_tokens_def claimable_amount_def i64_add_def split: if_splits sum.splits)

lemma claim_tokens_step:
  assumes "0 \<le> sint (total_amount s)"
    and "sint (start_time s) \<le> sint (cliff_time s)"
    and "sint (start_time s) < sint (end_time s)"
    and "0 \<le> sint (total_withdrawn s)"
    and "sint (total_withdrawn s) \<le> sint (total_amount s)"
    and "oc \<or> sint now < sint (cliff_time s) \<or> sint (end_time s) \<le> sint now
           \<or> sint (total_amount s) * (sint now - sint (start_time s)) \<le> i64_MAX"
  shows "snd (claim_tokens oc xfer s now) = s \<or>
         (sint (cliff_time s) \<le> sint now \<and>
          snd (claim_tokens oc xfer s now) = s\<lparr>total_withdrawn := word_of_int (vested_value s now)\<rparr>)"
proof (cases "claim_tokens oc xfer s now")
  case (Pair r s')
  show ?thesis
  proof (cases r)
    case (Inl e)
    then have "s' = s"
      using Pair
      by (auto simp: claim_tokens_def split: if_splits sum.splits)
    then show ?thesis using Pair by simp
  next
    case (Inr u)
    then have ok: "claim_tokens oc xfer s now = (Inr (), s')" using Pair by simp
    from claim_tokens_success [OF ok] obtain v where
      v: "vested_amount oc s now = Inr v" and cliff: "\<not> now <s cliff_time s"
      and s': "s' = s\<lparr>total_withdrawn := total_withdrawn s + saturating_sub v (total_withdrawn s)\<rparr>"
      by blast
    have cl: "sint (cliff_time s) \<le> sint now" using cliff by (simp add: word_sless_alt)
    then have st: "sint (start_time s) \<le> sint now" using assms(2) by simp
    have ov: "oc \<or> sint (end_time s) \<le> sint now
                \<or> sint (total_amount s) * (sint now - sint (start_time s)) \<le> i64_MAX"
      using assms(6) cl by auto
    have val: "sint v = vested_value s now"
      using assms(1,3) st ov v by (rule vested_amount_Inr_value)
    have "0 \<le> sint v" using val vested_value_nonneg [OF assms(1,3) st] by simp
    moreover have "sint v \<le> sint (total_amount s)"
      using val vested_value_le_total [OF assms(1,3), of now] by simp
    ultimately have "fits_i64 (sint v - sint (total_withdrawn s))"
      using assms(4,5) sint_fits_i64 [of "total_amount s"]
      unfolding fits_i64_def i64_MIN_def i64_MAX_def by linarith
    then have "total_withdrawn s + saturating_sub v (total_withdrawn s) = v"
      using saturating_sub_exact by simp
    moreover have "v = word_of_int (vested_value s now)" using val [symmetric] by simp
    ultimately show ?thesis using Pair s' cl by simp
  qed
qed

lemma claim_tokens_step_bounds:
  assumes "0 \<le> sint (total_amount s)"
    and "sint (start_time s) \<le> sint (cliff_time s)"
    and "sint (start_time s) < sint (end_time s)"
    and "0 \<le> sint (total_withdrawn s)"
    and "sint (total_withdrawn s) \<le> sint (total_amount s)"
    and "oc \<or> sint now < sint (cliff_time s) \<or> sint (end_time s) \<le> sint now
           \<or> sint (total_amount s) * (sint now - sint (start_time s)) \<le> i64_MAX"
    and "sint (cliff_time s) \<le> sint now \<longrightarrow> sint (total_withdrawn s) \<le> vested_value s now"
  shows "\<exists>w1. snd (claim_tokens oc xfer s now) = s\<lparr>total_withdrawn := w1\<rparr> \<and>
              sint (total_withdrawn s) \<le> sint w1 \<and> sint w1 \<le> sint (total_amount s) \<and>
              (\<forall>now'. sint now \<le> sint now' \<and> sint (total_withdrawn s) \<le> vested_value s now'
                  \<longrightarrow> sint w1 \<le> vested_value s now')"
proof -
  from claim_tokens_step [OF assms(1-6), of xfer]
  consider (same) "snd (claim_tokens oc xfer s now) = s"
    | (paid) "sint (cliff_time s) \<le> sint now"
        "snd (claim_tokens oc xfer s now) = s\<lparr>total_withdrawn := word_of_int (vested_value s now)\<rparr>"
    by blast
  then show ?thesis
  proof cases
    case same
    then have "snd (claim_tokens oc xfer s now) = s\<lparr>total_withdrawn := total_withdrawn s\<rparr>"
      by simp
    then show ?thesis using assms(5) by blast
  next
    case paid
    have st: "sint (start_time s) \<le> sint now" using paid(1) assms(2) by simp
    have lo: "0 \<le> vested_value s now" using assms(1,3) st by (rule vested_value_nonneg)
    have hi: "vested_value s now \<le> sint (total_amount s)"
      using assms(1,3) by (rule vested_value_le_total)
    have "fits_i64 (vested_value s now)"
      using lo hi sint_fits_i64 [of "total_amount s"]
      unfolding fits_i64_def i64_MIN_def i64_MAX_def by linarith
    then have sw: "sint (word_of_int (vested_value s now) :: i64) = vested_value s now"
      by (rule sint_word_of_int_i64)
    have up: "sint (total_withdrawn s) \<le> vested_value s now" using assms(7) paid(1) by simp
    have "\<forall>now'. sint now \<le> sint now' \<longrightarrow> vested_value s now \<le> vested_value s now'"
      using vested_value_mono [OF assms(1,3)] by blast
    then show ?thesis using paid(2) sw up hi by auto
  qed
qed

lemma claim_all_append:
  "claim_all oc s (rs1 @ rs2) = claim_all oc (claim_all oc s rs1) rs2"
  by (induction oc s rs1 rule: claim_all.induct) simp_all

lemma claim_all_invariant:
  assumes "0 \<le> sint (total_amount s)"
    and "sint (start_time s) \<le> sint (cliff_time s)"
    and "sint (start_time s) < sint (end_time s)"
    and "0 \<le> sint (total_withdrawn s)"
    and "sint (total_withdrawn s) \<le> sint (total_amount s)"
    and "clock_nondecreasing rs"
    and "oc \<or> list_all (\<lambda>r. sint (fst r) < sint (cliff_time s)
                               \<or> sint (end_time s) \<le> sint (fst r)
                               \<or> sint (total_amount s) * (sint (fst r) - sint (start_time s))
                                   \<le> i64_MAX) rs"
    and "\<forall>r\<in>set rs. sint (cliff_time s) \<le> sint (fst r) \<longrightarrow>
           sint (total_withdrawn s) \<le> vested_value s (fst r)"
  shows "\<exists>w. claim_all oc s rs = s\<lparr>total_withdrawn := w\<rparr> \<and>
             sint (total_withdrawn s) \<le> sint w \<and> sint w \<le> sint (total_amount s) \<and>
             (\<forall>now. (\<forall>r\<in>set rs. sint (fst r) \<le> sint now) \<and>
                    sint (total_withdrawn s) \<le> vested_value s now
                  \<longrightarrow> sint w \<le> vested_value s now)"
  using assms
proof (induction rs arbitrary: s)
  case Nil
  have "claim_all oc s [] = s\<lparr>total_withdrawn := total_withdrawn s\<rparr>" by simp
  then show ?case using Nil.prems(5) by blast
next
  case (Cons r rs)
  obtain now xfer where r: "r = (now, xfer)" by (cases r)
  have ov: "oc \<or> sint now < sint (cliff_time s) \<or> sint (end_time s) \<le> sint now
              \<or> sint (total_amount s) * (sint now - sint (start_time s)) \<le> i64_MAX"
    using Cons.prems(7) r by auto
  have b0: "sint (cliff_time s) \<le> sint now \<longrightarrow> sint (total_withdrawn s) \<le> vested_value s now"
    using Cons.prems(8) r by simp
  from claim_tokens_step_bounds [OF Cons.prems(1-5) ov b0, of xfer]
  obtain w1 where s1: "snd (claim_tokens oc xfer s now) = s\<lparr>total_withdrawn := w1\<rparr>"
    and w1lo: "sint (total_withdrawn s) \<le> sint w1"
    and w1hi: "sint w1 \<le> sint (total_amount s)"
    and w1b: "\<forall>now'. sint now \<le> sint now' \<and> sint (total_withdrawn s) \<le> vested_value s now'
                \<longrightarrow> sint w1 \<le> vested_value s now'"
    by blast
  let ?s1 = "s\<lparr>total_withdrawn := w1\<rparr>"
  have later: "\<forall>r'\<in>set rs. sint now \<le> sint (fst r')"
    using Cons.prems(6) r by (simp add: clock_nondecreasing_def word_sle_eq)
  have p6: "clock_nondecreasing rs"
    using Cons.prems(6) by (simp add: clock_nondecreasing_def)
  have p7: "oc \<or> list_all (\<lambda>r. sint (fst r) < sint (cliff_time ?s1)
                               \<or> sint (end_time ?s1) \<le> sint (fst r)
                               \<or> sint (total_amount ?s1) * (sint (fst r) - sint (start_time ?s1))
                                   \<le> i64_MAX) rs"
    using Cons.prems(7) by auto
  have p8: "\<forall>r\<in>set rs. sint (cliff_time ?s1) \<le> sint (fst r) \<longrightarrow>
              sint (total_withdrawn ?s1) \<le> vested_value ?s1 (fst r)"
    using Cons.prems(8) w1b later by simp
  have p4: "0 \<le> sint (total_withdrawn ?s1)" using Cons.prems(4) w1lo by simp
  from Cons.IH [of ?s1, OF _ _ _ p4 _ p6 p7 p8] Cons.prems(1-3) w1hi
  obtain w where w: "claim_all oc ?s1 rs = ?s1\<lparr>total_withdrawn := w\<rparr>"
    and wlo: "sint w1 \<le> sint w" and whi: "sint w \<le> sint (total_amount s)"
    and wb: "\<forall>now'. (\<forall>r\<in>set rs. sint (fst r) \<le> sint now') \<and> sint w1 \<le> vested_value s now'
               \<longrightarrow> sint w \<le> vested_value s now'"
    by auto
  have "claim_all oc s (r # rs) = s\<lparr>total_withdrawn := w\<rparr>"
    using w s1 r by simp
  moreover have "sint (total_withdrawn s) \<le> sint w" using w1lo wlo by simp
  moreover have "\<forall>now'. (\<forall>r\<in>set (r # rs). sint (fst r) \<le> sint now') \<and>
                    sint (total_withdrawn s) \<le> vested_value s now'
                  \<longrightarrow> sint w \<le> vested_value s now'"
    using wb w1b r by simp
  ultimately show ?case using whi by blast
qed

text \<open>A schedule whose end is not after its cliff: every claim that passes the cliff pays up to the total.\<close>

lemma claim_tokens_late_cliff:
  assumes "sint (end_time s) \<le> sint (cliff_time s)"
    and "0 \<le> sint (total_withdrawn s)"
    and "sint (total_withdrawn s) \<le> sint (total_amount s)"
  shows "snd (claim_tokens oc xfer s now) = s \<or>
         snd (claim_tokens oc xfer s now) = s\<lparr>total_withdrawn := total_amount s\<rparr>"
proof (cases "claim_tokens oc xfer s now")
  case (Pair r s')
  show ?thesis
  proof (cases r)
    case (Inl e)
    then have "s' = s"
      using Pair by (auto simp: claim_tokens_def split: if_splits sum.splits)
    then show ?thesis using Pair by simp
  next
    case (Inr u)
    then have ok: "claim_tokens oc xfer s now = (Inr (), s')" using Pair by simp
    from claim_tokens_success [OF ok] obtain v where
      v: "vested_amount oc s now = Inr v" and cliff: "\<not> now <s cliff_time s"
      and s': "s' = s\<lparr>total_withdrawn := total_withdrawn s + saturating_sub v (total_withdrawn s)\<rparr>"
      by blast
    have "sint (end_time s) \<le> sint now" using cliff assms(1) by (simp add: word_sless_alt)
    then have "v = total_amount s" using v by (simp add: vested_amount_fully)
    moreover have "fits_i64 (sint (total_amount s) - sint (total_withdrawn s))"
      using assms(2,3) sint_fits_i64 [of "total_amount s"]
      unfolding fits_i64_def i64_MIN_def i64_MAX_def by linarith
    then have "total_withdrawn s + saturating_sub (total_amount s) (total_withdrawn s)
                 = total_amount s"
      using saturating_sub_exact by simp
    ultimately show ?thesis using Pair s' by simp
  qed
qed

lemma claim_all_late_cliff:
  assumes "sint (end_time s) \<le> sint (cliff_time s)"
    and "0 \<le> sint (total_withdrawn s)"
    and "sint (total_withdrawn s) \<le> sint (total_amount s)"
  shows "\<exists>w. claim_all oc s rs = s\<lparr>total_withdrawn := w\<rparr> \<and>
             sint (total_withdrawn s) \<le> sint w \<and> sint w \<le> sint (total_amount s)"
  using assms
proof (induction rs arbitrary: s)
  case Nil
  have "claim_all oc s [] = s\<lparr>total_withdrawn := total_withdrawn s\<rparr>" by simp
  then show ?case using Nil.prems(3) by blast
next
  case (Cons r rs)
  obtain now xfer where r: "r = (now, xfer)" by (cases r)
  from claim_tokens_late_cliff [OF Cons.prems, of oc xfer now]
  obtain w1 where s1: "snd (claim_tokens oc xfer s now) = s\<lparr>total_withdrawn := w1\<rparr>"
    and w1: "sint (total_withdrawn s) \<le> sint w1" "sint w1 \<le> sint (total_amount s)"
  proof
    assume same: "snd (claim_tokens oc xfer s now) = s"
    then have "snd (claim_tokens oc xfer s now) = s\<lparr>total_withdrawn := total_withdrawn s\<rparr>"
      by simp
    then show thesis using Cons.prems(3) that by blast
  next
    assume "snd (claim_tokens oc xfer s now) = s\<lparr>total_withdrawn := total_amount s\<rparr>"
    then show thesis using Cons.prems(3) that by blast
  qed
  let ?s1 = "s\<lparr>total_withdrawn := w1\<rparr>"
  have "0 \<le> sint (total_withdrawn ?s1)" using Cons.prems(2) w1(1) by simp
  from Cons.IH [of ?s1, OF _ this] Cons.prems(1) w1(2)
  obtain w where "claim_all oc ?s1 rs = ?s1\<lparr>total_withdrawn := w\<rparr>"
    "sint w1 \<le> sint w" "sint w \<le> sint (total_amount s)"
    by auto
  then have "claim_all oc s (r # rs) = s\<lparr>total_withdrawn := w\<rparr>"
    "sint (total_withdrawn s) \<le> sint w" "sint w \<le> sint (total_amount s)"
    using s1 r w1(1) by simp_all
  then show ?case by blast
qed

subsection \<open>Where the calculation agrees with the exact quotient\<close>

text \<open>
  For a time from the start on and before the end, a non-negative total and a vesting time
  that fits \<open>i64\<close>, the calculation returns the floor of
  \<open>total_amount * (now - start_time) / (end_time - start_time)\<close> exactly when that
  product is at most \<open>i64::MAX\<close>; it is monotone over times at which the product fits.
\<close>

lemma vested_amount_exact_iff:
  assumes "sint now < sint (end_time s)"
    and "sint (start_time s) \<le> sint now"
    and "0 \<le> sint (total_amount s)"
    and "sint (end_time s) - sint (start_time s) \<le> i64_MAX"
  shows "((\<exists>v. vested_amount oc s now = Inr v \<and>
               sint v = (sint (total_amount s) * (sint now - sint (start_time s)))
                          div (sint (end_time s) - sint (start_time s)))
            = (sint (total_amount s) * (sint now - sint (start_time s)) \<le> i64_MAX)) \<and>
         (i64_MAX < sint (total_amount s) * (sint now - sint (start_time s)) \<longrightarrow>
            vested_amount True s now = Inl (Panicked MultiplyOverflow))"
proof -
  let ?T = "sint (total_amount s)"
  let ?p = "?T * (sint now - sint (start_time s))"
  let ?d = "sint (end_time s) - sint (start_time s)"
  have d: "sint (saturating_sub (end_time s) (start_time s)) = ?d"
    using assms(1,2,4) by (intro sint_total_vesting_time) simp_all
  have dpos: "0 < ?d" using assms(1,2) by simp
  have e: "sint (saturating_sub now (start_time s)) = sint now - sint (start_time s)"
    using assms(1,2,4) by (simp add: sint_saturating_sub i64_MIN_def)
  have over: "vested_amount True s now = Inl (Panicked MultiplyOverflow)"
    and wrapped: "\<exists>v. vested_amount False s now = Inr v \<and> sint v < ?p div ?d"
    if big: "i64_MAX < ?p"
  proof -
    have "\<not> fits_i64 (?T * sint (saturating_sub now (start_time s)))"
      using big by (simp add: e fits_i64_def)
    then show "vested_amount True s now = Inl (Panicked MultiplyOverflow)"
      using assms(1) by (intro vested_amount_overflow)
    show "\<exists>v. vested_amount False s now = Inr v \<and> sint v < ?p div ?d"
      using vested_amount_unchecked [of now s] assms(1) dpos
        wrapped_quot_less [OF big dpos assms(4)]
      by (auto simp: d e)
  qed
  have "(\<exists>v. vested_amount oc s now = Inr v \<and> sint v = ?p div ?d) = (?p \<le> i64_MAX)"
  proof (cases "?p \<le> i64_MAX")
    case True
    then show ?thesis using vested_amount_exact [OF assms(1,2,3,4)] by simp
  next
    case False
    then have big: "i64_MAX < ?p" by simp
    show ?thesis
    proof (cases oc)
      case True
      then show ?thesis using over [OF big] False by simp
    next
      case False
      then show ?thesis using wrapped [OF big] big by auto
    qed
  qed
  then show ?thesis using over by simp
qed

lemma vested_amount_monotone:
  assumes "0 \<le> sint (total_amount s)"
    and "sint (start_time s) < sint (end_time s)"
    and "sint now1 \<le> sint now2"
    and "sint (end_time s) \<le> sint now1
           \<or> fits_i64 (sint (total_amount s) * (sint now1 - sint (start_time s)))"
    and "sint (end_time s) \<le> sint now2
           \<or> fits_i64 (sint (total_amount s) * (sint now2 - sint (start_time s)))"
  shows "(\<exists>v1 v2. vested_amount oc s now1 = Inr v1 \<and> vested_amount oc s now2 = Inr v2 \<and>
                  sint v1 \<le> sint v2) \<and>
         (sint (end_time s) \<le> sint now \<longrightarrow> vested_amount oc s now = Inr (total_amount s)) \<and>
         (sint now < sint (cliff_time s) \<longrightarrow>
            claim_tokens oc xfer s now = (Inl (Custom ClaimNotAvailableYet), s))"
proof -
  obtain v1 where v1: "vested_amount oc s now1 = Inr v1" "sint v1 = vested_value s now1"
    using vested_amount_returns [OF assms(1,2,4)] by blast
  obtain v2 where v2: "vested_amount oc s now2 = Inr v2" "sint v2 = vested_value s now2"
    using vested_amount_returns [OF assms(1,2,5)] by blast
  have "sint v1 \<le> sint v2"
    using vested_value_mono [OF assms(1,2,3)] v1(2) v2(2) by simp
  then show ?thesis
    using v1(1) v2(1) by (simp add: vested_amount_fully claim_before_cliff)
qed

text \<open>
  A second claim at the same time finds nothing when the subtraction of the first was
  exact, in particular on an account with nothing withdrawn.
\<close>

lemma second_claim_nothing:
  assumes "claim_tokens oc xfer s now = (Inr (), s')"
    and "vested_amount oc s now = Inr v"
    and "fits_i64 (sint v - sint (total_withdrawn s))"
  shows "claim_tokens oc xfer' s' now = (Inl (Custom NothingToClaim), s')"
proof -
  from claim_tokens_success [OF assms(1)] assms(2)
  have cliff: "\<not> now <s cliff_time s"
    and s': "s' = s\<lparr>total_withdrawn := total_withdrawn s + saturating_sub v (total_withdrawn s)\<rparr>"
    by auto
  have "total_withdrawn s + saturating_sub v (total_withdrawn s) = v"
    using saturating_sub_exact [OF assms(3)] by simp
  then have s'': "s' = s\<lparr>total_withdrawn := v\<rparr>" using s' by simp
  have "claimable_amount oc s' now = Inr 0"
    using assms(2) by (simp add: claimable_amount_def s'' saturating_sub_self)
  then show ?thesis using cliff by (simp add: claim_tokens_def s'')
qed

lemma second_claim_nothing_fresh:
  assumes "claim_tokens oc xfer s now = (Inr (), s')"
    and "total_withdrawn s = 0"
  shows "claim_tokens oc xfer' s' now = (Inl (Custom NothingToClaim), s')"
proof -
  from claim_tokens_success [OF assms(1)] obtain v where v: "vested_amount oc s now = Inr v"
    by blast
  have "fits_i64 (sint v - sint (total_withdrawn s))"
    using sint_fits_i64 [of v] assms(2) by simp
  with assms(1) v show ?thesis by (rule second_claim_nothing)
qed

section \<open>The claims\<close>

subsection \<open>C1: the vested amount against the reference definition\<close>

text \<open>
  C1. The schedule of the documentation's example (start 1 January 2024, cliff 1 January
  2025, end 1 January 2028) with a total of \<open>10 ^ 12\<close> units, a thousand tokens of a
  mint with nine decimals, claimed on 1 July 2025. The reference value is
  \<open>floor (10 ^ 12 * 47260800 / 126316800) = 374145006839\<close>. The product does not fit
  \<open>i64\<close>: with overflow checks the calculation and the claim panic, without them the
  product wraps and the calculation yields \<open>-63961660057\<close>.
\<close>

theorem C1_product_overflows:
  "vested_amount True (schedule 1704067200 1735689600 1830384000 1000000000000 0) 1751328000
     = Inl (Panicked MultiplyOverflow) \<and>
   claim_tokens True (\<lambda>amount. True)
       (schedule 1704067200 1735689600 1830384000 1000000000000 0) 1751328000
     = (Inl (Panicked MultiplyOverflow),
        schedule 1704067200 1735689600 1830384000 1000000000000 0) \<and>
   vested_amount False (schedule 1704067200 1735689600 1830384000 1000000000000 0) 1751328000
     = Inr (- 63961660057) \<and>
   (1000000000000 * (1751328000 - 1704067200)) div (1830384000 - 1704067200)
     = (374145006839 :: int) \<and>
   i64_MAX < 1000000000000 * (1751328000 - 1704067200)"
  by (simp add: claim_eval)

subsection \<open>C2: a schedule of zero duration\<close>

text \<open>
  C2. The calculation has no guard for \<open>start_time = end_time\<close>. For such a schedule, at
  a time between the cliff and the end, it evaluates \<open>(1000 * -50) / 0\<close>: the division
  panics, and the instruction stops with that panic, not with an error code.
\<close>

theorem C2_zero_duration_divides_by_zero:
  "vested_amount oc (schedule 100 0 100 1000 0) 50 = Inl (Panicked DivideByZero) \<and>
   claim_tokens oc xfer (schedule 100 0 100 1000 0) 50
     = (Inl (Panicked DivideByZero), schedule 100 0 100 1000 0)"
  by (simp add: claim_eval)

subsection \<open>C3: the width of the multiplication\<close>

text \<open>
  C3. The product is formed in \<open>i64\<close>. The schedule of the documentation's example with
  a total of \<open>10 ^ 11\<close> units, a hundred tokens of a mint with nine decimals, claimed on
  1 July 2027: the product \<open>10 ^ 11 * 110332800\<close> exceeds \<open>i64::MAX\<close> and the exact
  value is 87346101231. With overflow checks the multiplication panics; without them it
  wraps to \<open>-7413464073709551616\<close> and the calculation yields \<open>-58689454401\<close>.
\<close>

theorem C3_multiplication_in_i64:
  "i64_MAX < 100000000000 * (1814400000 - 1704067200) \<and>
   i64_mul True 100000000000 (saturating_sub 1814400000 1704067200)
     = Inl (Panicked MultiplyOverflow) \<and>
   i64_mul False 100000000000 (saturating_sub 1814400000 1704067200)
     = Inr (- 7413464073709551616) \<and>
   vested_amount True (schedule 1704067200 1735689600 1830384000 100000000000 0) 1814400000
     = Inl (Panicked MultiplyOverflow) \<and>
   vested_amount False (schedule 1704067200 1735689600 1830384000 100000000000 0) 1814400000
     = Inr (- 58689454401) \<and>
   (100000000000 * (1814400000 - 1704067200)) div (1830384000 - 1704067200)
     = (87346101231 :: int)"
  by (simp add: claim_eval)

subsection \<open>C4: the claimable amount can be negative\<close>

text \<open>
  C4. \<open>saturating_sub\<close> on \<open>i64\<close> saturates at the bounds of the type, not at zero. A
  schedule whose cliff lies before its start, claimed between the two, has a vested amount
  of \<open>-500\<close> and a claimable amount of \<open>-500\<close>; the zero guard lets it pass, the
  transfer is requested for \<open>2 ^ 64 - 500\<close> units and, if the token program accepts,
  \<open>total_withdrawn\<close> becomes \<open>-500\<close>. With \<open>total_withdrawn = 60\<close> above a vested
  amount of 50 the claimable amount is \<open>-10\<close>.
\<close>

theorem C4_claimable_amount_negative:
  "claimable_amount oc (schedule 100 0 200 1000 0) 50 = Inr (- 500) \<and>
   sint (- 500 :: i64) = - 500 \<and>
   uint (- 500 :: i64) = 18446744073709551116 \<and>
   claim_tokens oc (\<lambda>amount. uint amount = 18446744073709551116) (schedule 100 0 200 1000 0) 50
     = (Inr (), schedule 100 0 200 1000 (- 500)) \<and>
   claimable_amount oc (schedule 0 0 100 100 60) 50 = Inr (- 10)"
  by (simp add: claim_eval)

subsection \<open>C5: the withdrawn total stays within the allocation\<close>

text \<open>
  C5, as amended. Let a schedule be created with a non-negative total, and let either its
  end be not after its cliff, or its start be not after its cliff and the claims arrive
  with clock readings that never go back and, when overflow checks are off, with products
  \<open>total_amount * (now - start_time)\<close> that fit \<open>i64\<close> at every claim from the cliff
  on and before the end. Then after every prefix of the claims
  \<open>0 \<le> total_withdrawn \<le> total_amount\<close>, the total is unchanged, and
  \<open>total_withdrawn\<close> after a prefix is at most \<open>total_withdrawn\<close> after any longer
  sequence. The token program may accept or refuse each transfer.
\<close>

theorem C5_withdrawn_invariant:
  assumes "create_employee_vesting find_program_address rent accounts request
             start finish amount cliff = (Inr (), accounts')"
    and "0 \<le> sint amount"
    and "sint finish \<le> sint cliff \<or>
         (sint start \<le> sint cliff \<and> clock_nondecreasing (earlier @ later) \<and>
          (oc \<or> list_all (\<lambda>r. sint (fst r) < sint cliff \<or> sint finish \<le> sint (fst r)
                                \<or> sint amount * (sint (fst r) - sint start) \<le> i64_MAX)
                  (earlier @ later)))"
  shows "\<exists>ea. accounts' (fst (find_program_address (beneficiary_key request)
                                 (vesting_account_key request))) = Some ea \<and>
              total_withdrawn ea = 0 \<and> total_amount ea = amount \<and>
              total_amount (claim_all oc ea earlier) = amount \<and>
              0 \<le> sint (total_withdrawn (claim_all oc ea earlier)) \<and>
              sint (total_withdrawn (claim_all oc ea earlier)) \<le> sint amount \<and>
              sint (total_withdrawn (claim_all oc ea earlier))
                \<le> sint (total_withdrawn (claim_all oc ea (earlier @ later)))"
proof -
  define ea where
    "ea = \<lparr>beneficiary = beneficiary_key request, start_time = start, end_time = finish,
           total_amount = amount, total_withdrawn = 0, cliff_time = cliff,
           vesting_account = vesting_account_key request,
           bump = snd (find_program_address (beneficiary_key request)
                         (vesting_account_key request))\<rparr>"
  have stored: "accounts' (fst (find_program_address (beneficiary_key request)
                                  (vesting_account_key request))) = Some ea"
    using assms(1)
    by (auto simp: create_employee_vesting_def ea_def split: if_splits option.splits prod.splits)
  have f: "total_amount ea = amount" "start_time ea = start" "end_time ea = finish"
    "cliff_time ea = cliff" "total_withdrawn ea = 0"
    by (simp_all add: ea_def)
  have w0: "0 \<le> sint (total_withdrawn ea)" "sint (total_withdrawn ea) \<le> sint (total_amount ea)"
    using assms(2) by (simp_all add: f)
  have "\<exists>w1 w2. claim_all oc ea earlier = ea\<lparr>total_withdrawn := w1\<rparr> \<and>
                 claim_all oc (ea\<lparr>total_withdrawn := w1\<rparr>) later = ea\<lparr>total_withdrawn := w2\<rparr> \<and>
                 0 \<le> sint w1 \<and> sint w1 \<le> sint amount \<and> sint w1 \<le> sint w2"
  proof (cases "sint finish \<le> sint cliff")
    case True
    then have late: "sint (end_time ea) \<le> sint (cliff_time ea)" by (simp add: f)
    from claim_all_late_cliff [OF late w0, of oc earlier]
    obtain w1 where s1: "claim_all oc ea earlier = ea\<lparr>total_withdrawn := w1\<rparr>"
      and w1: "0 \<le> sint w1" "sint w1 \<le> sint amount"
      by (auto simp: f)
    let ?s1 = "ea\<lparr>total_withdrawn := w1\<rparr>"
    have "sint (end_time ?s1) \<le> sint (cliff_time ?s1)" "0 \<le> sint (total_withdrawn ?s1)"
      "sint (total_withdrawn ?s1) \<le> sint (total_amount ?s1)"
      using late w1 by (simp_all add: f)
    from claim_all_late_cliff [OF this, of oc later]
    obtain w2 where "claim_all oc ?s1 later = ea\<lparr>total_withdrawn := w2\<rparr>" "sint w1 \<le> sint w2"
      by auto
    then show ?thesis using s1 w1 by blast
  next
    case False
    then have h: "sint start \<le> sint cliff" "clock_nondecreasing (earlier @ later)"
      "oc \<or> list_all (\<lambda>r. sint (fst r) < sint cliff \<or> sint finish \<le> sint (fst r)
                               \<or> sint amount * (sint (fst r) - sint start) \<le> i64_MAX)
                 (earlier @ later)"
      using assms(3) by simp_all
    have v1: "0 \<le> sint (total_amount ea)" "sint (start_time ea) \<le> sint (cliff_time ea)"
      "sint (start_time ea) < sint (end_time ea)"
      using assms(2) h(1) False by (simp_all add: f)
    have sorted: "clock_nondecreasing earlier" "clock_nondecreasing later"
      "\<forall>r1\<in>set earlier. \<forall>r2\<in>set later. sint (fst r1) \<le> sint (fst r2)"
      using h(2) by (simp_all add: clock_nondecreasing_def sorted_wrt_append word_sle_eq)
    have ov1: "oc \<or> list_all (\<lambda>r. sint (fst r) < sint (cliff_time ea)
                               \<or> sint (end_time ea) \<le> sint (fst r)
                               \<or> sint (total_amount ea) * (sint (fst r) - sint (start_time ea))
                                   \<le> i64_MAX) earlier"
      using h(3) by (auto simp: f)
    have nonneg: "0 \<le> vested_value ea now" if "sint (cliff_time ea) \<le> sint now" for now
      using v1(1,3) by (rule vested_value_nonneg) (use that v1(2) in simp)
    have b1: "\<forall>r\<in>set earlier. sint (cliff_time ea) \<le> sint (fst r) \<longrightarrow>
                sint (total_withdrawn ea) \<le> vested_value ea (fst r)"
      using nonneg by (simp add: f(5))
    from claim_all_invariant [OF v1 w0 sorted(1) ov1 b1]
    obtain w1 where s1: "claim_all oc ea earlier = ea\<lparr>total_withdrawn := w1\<rparr>"
      and w1lo: "0 \<le> sint w1" and w1hi: "sint w1 \<le> sint amount"
      and w1b: "\<forall>now. (\<forall>r\<in>set earlier. sint (fst r) \<le> sint now) \<and> 0 \<le> vested_value ea now
                  \<longrightarrow> sint w1 \<le> vested_value ea now"
      by (auto simp: f)
    let ?s1 = "ea\<lparr>total_withdrawn := w1\<rparr>"
    have v2: "0 \<le> sint (total_amount ?s1)" "sint (start_time ?s1) \<le> sint (cliff_time ?s1)"
      "sint (start_time ?s1) < sint (end_time ?s1)"
      "0 \<le> sint (total_withdrawn ?s1)" "sint (total_withdrawn ?s1) \<le> sint (total_amount ?s1)"
      using v1 w1lo w1hi by (simp_all add: f)
    have ov2: "oc \<or> list_all (\<lambda>r. sint (fst r) < sint (cliff_time ?s1)
                               \<or> sint (end_time ?s1) \<le> sint (fst r)
                               \<or> sint (total_amount ?s1) * (sint (fst r) - sint (start_time ?s1))
                                   \<le> i64_MAX) later"
      using h(3) by (auto simp: f)
    have b2: "\<forall>r\<in>set later. sint (cliff_time ?s1) \<le> sint (fst r) \<longrightarrow>
                sint (total_withdrawn ?s1) \<le> vested_value ?s1 (fst r)"
      using w1b sorted(3) nonneg by simp
    from claim_all_invariant [OF v2 sorted(2) ov2 b2]
    obtain w2 where "claim_all oc ?s1 later = ea\<lparr>total_withdrawn := w2\<rparr>" "sint w1 \<le> sint w2"
      by auto
    then show ?thesis using s1 w1lo w1hi by blast
  qed
  then obtain w1 w2 where "claim_all oc ea earlier = ea\<lparr>total_withdrawn := w1\<rparr>"
    "claim_all oc (ea\<lparr>total_withdrawn := w1\<rparr>) later = ea\<lparr>total_withdrawn := w2\<rparr>"
    "0 \<le> sint w1" "sint w1 \<le> sint amount" "sint w1 \<le> sint w2"
    by blast
  then show ?thesis using stored by (simp add: claim_all_append f)
qed

text \<open>
  The theorem at the walkthrough schedule, created in an empty store by the example
  request, with a claim at 18 months and one at the end, overflow checks off: 18000
  withdrawn after the first, 48000 after both. And at a schedule whose cliff is its end,
  with the clock going back from the end to 18 months: 48000 after the first claim and
  after both.
\<close>

theorem C5_witness:
  "create_employee_vesting example_address 1677360 Map.empty example_request
       0 126144000 48000 31536000
     = (Inr (), [1005 \<mapsto> \<lparr>beneficiary = 3, start_time = 0, end_time = 126144000,
                 total_amount = 48000, total_withdrawn = 0, cliff_time = 31536000,
                 vesting_account = 2, bump = 253\<rparr>]) \<and>
   0 \<le> sint (48000 :: i64) \<and> sint (0 :: i64) \<le> sint (31536000 :: i64) \<and>
   clock_nondecreasing
     ([(47304000 :: i64, \<lambda>amount :: u64. True)] @ [(126144000, \<lambda>amount. True)]) \<and>
   list_all (\<lambda>r. sint (fst r) < sint (31536000 :: i64) \<or> sint (126144000 :: i64) \<le> sint (fst r)
                 \<or> sint (48000 :: i64) * (sint (fst r) - sint (0 :: i64)) \<le> i64_MAX)
     ([(47304000 :: i64, \<lambda>amount :: u64. True)] @ [(126144000, \<lambda>amount. True)]) \<and>
   (\<exists>ea. [1005 \<mapsto> \<lparr>beneficiary = 3, start_time = 0, end_time = 126144000,
                 total_amount = 48000, total_withdrawn = 0, cliff_time = 31536000,
                 vesting_account = 2, bump = 253\<rparr>] 1005 = Some ea \<and>
      total_withdrawn (claim_all False ea [(47304000, \<lambda>amount. True)]) = 18000 \<and>
      total_withdrawn (claim_all False ea
         ([(47304000, \<lambda>amount. True)] @ [(126144000, \<lambda>amount. True)])) = 48000 \<and>
      total_amount (claim_all False ea [(47304000, \<lambda>amount. True)]) = 48000 \<and>
      0 \<le> sint (total_withdrawn (claim_all False ea [(47304000, \<lambda>amount. True)])) \<and>
      sint (total_withdrawn (claim_all False ea [(47304000, \<lambda>amount. True)]))
        \<le> sint (48000 :: i64) \<and>
      sint (total_withdrawn (claim_all False ea [(47304000, \<lambda>amount. True)]))
        \<le> sint (total_withdrawn (claim_all False ea
              ([(47304000, \<lambda>amount. True)] @ [(126144000, \<lambda>amount. True)])))) \<and>
   create_employee_vesting example_address 1677360 Map.empty example_request
       0 126144000 48000 126144000
     = (Inr (), [1005 \<mapsto> \<lparr>beneficiary = 3, start_time = 0, end_time = 126144000,
                 total_amount = 48000, total_withdrawn = 0, cliff_time = 126144000,
                 vesting_account = 2, bump = 253\<rparr>]) \<and>
   sint (126144000 :: i64) \<le> sint (126144000 :: i64) \<and>
   (\<exists>ea. [1005 \<mapsto> \<lparr>beneficiary = 3, start_time = 0, end_time = 126144000,
                 total_amount = 48000, total_withdrawn = 0, cliff_time = 126144000,
                 vesting_account = 2, bump = 253\<rparr>] 1005 = Some ea \<and>
      total_withdrawn (claim_all True ea [(126144000, \<lambda>amount. True)]) = 48000 \<and>
      total_withdrawn (claim_all True ea
         ([(126144000, \<lambda>amount. True)] @ [(47304000, \<lambda>amount. True)])) = 48000 \<and>
      0 \<le> sint (total_withdrawn (claim_all True ea [(126144000, \<lambda>amount. True)])) \<and>
      sint (total_withdrawn (claim_all True ea [(126144000, \<lambda>amount. True)]))
        \<le> sint (48000 :: i64) \<and>
      sint (total_withdrawn (claim_all True ea [(126144000, \<lambda>amount. True)]))
        \<le> sint (total_withdrawn (claim_all True ea
              ([(126144000, \<lambda>amount. True)] @ [(47304000, \<lambda>amount. True)]))))"
proof -
  have ca: "create_employee_vesting example_address 1677360 Map.empty example_request
       0 126144000 48000 31536000
     = (Inr (), [1005 \<mapsto> \<lparr>beneficiary = 3, start_time = 0, end_time = 126144000,
                 total_amount = 48000, total_withdrawn = 0, cliff_time = 31536000,
                 vesting_account = 2, bump = 253\<rparr>])"
    and cb: "create_employee_vesting example_address 1677360 Map.empty example_request
       0 126144000 48000 126144000
     = (Inr (), [1005 \<mapsto> \<lparr>beneficiary = 3, start_time = 0, end_time = 126144000,
                 total_amount = 48000, total_withdrawn = 0, cliff_time = 126144000,
                 vesting_account = 2, bump = 253\<rparr>])"
    by (simp_all add: create_employee_vesting_def example_address_def example_request_def
          acme_def)
  have h: "0 \<le> sint (48000 :: i64)" "sint (0 :: i64) \<le> sint (31536000 :: i64)"
    "sint (126144000 :: i64) \<le> sint (126144000 :: i64)"
    by simp_all
  have s: "clock_nondecreasing
     ([(47304000 :: i64, \<lambda>amount :: u64. True)] @ [(126144000, \<lambda>amount. True)])"
    by (simp add: clock_nondecreasing_def)
  have l: "list_all (\<lambda>r. sint (fst r) < sint (31536000 :: i64)
                 \<or> sint (126144000 :: i64) \<le> sint (fst r)
                 \<or> sint (48000 :: i64) * (sint (fst r) - sint (0 :: i64)) \<le> i64_MAX)
     ([(47304000 :: i64, \<lambda>amount :: u64. True)] @ [(126144000, \<lambda>amount. True)])"
    by (simp add: i64_MAX_def)
  have e: "total_withdrawn (claim_all False \<lparr>beneficiary = 3, start_time = 0,
                 end_time = 126144000, total_amount = 48000, total_withdrawn = 0,
                 cliff_time = 31536000, vesting_account = 2, bump = 253\<rparr>
              [(47304000, \<lambda>amount. True)]) = 18000"
    "total_withdrawn (claim_all False \<lparr>beneficiary = 3, start_time = 0,
                 end_time = 126144000, total_amount = 48000, total_withdrawn = 0,
                 cliff_time = 31536000, vesting_account = 2, bump = 253\<rparr>
              ([(47304000, \<lambda>amount. True)] @ [(126144000, \<lambda>amount. True)])) = 48000"
    "total_withdrawn (claim_all True \<lparr>beneficiary = 3, start_time = 0,
                 end_time = 126144000, total_amount = 48000, total_withdrawn = 0,
                 cliff_time = 126144000, vesting_account = 2, bump = 253\<rparr>
              [(126144000, \<lambda>amount. True)]) = 48000"
    "total_withdrawn (claim_all True \<lparr>beneficiary = 3, start_time = 0,
                 end_time = 126144000, total_amount = 48000, total_withdrawn = 0,
                 cliff_time = 126144000, vesting_account = 2, bump = 253\<rparr>
              ([(126144000, \<lambda>amount. True)] @ [(47304000, \<lambda>amount. True)])) = 48000"
    by (simp_all add: claim_eval)
  have pda: "fst (example_address (beneficiary_key example_request)
                    (vesting_account_key example_request)) = 1005"
    by (simp add: example_address_def example_request_def)
  show ?thesis
    using ca cb h s l e pda
      C5_withdrawn_invariant [OF ca h(1) disjI2 [OF conjI [OF h(2) conjI [OF s disjI2 [OF l]]]]]
      C5_withdrawn_invariant [where earlier = "[(126144000, \<lambda>amount. True)]"
        and later = "[(47304000, \<lambda>amount. True)]" and oc = True, OF cb h(1) disjI1 [OF h(3)]]
    by simp
qed

text \<open>
  C5 as stated fails, and each condition above is needed. Creation accepts a total of
  \<open>-5\<close>, and the new record has \<open>total_withdrawn = 0\<close> above its total. It accepts a
  cliff before the start and the end; a claim between cliff and start that the token
  program accepts takes \<open>total_withdrawn\<close> from 0 down to \<open>-500\<close>. On the walkthrough
  schedule a clock that goes back from the end to 18 months takes \<open>total_withdrawn\<close>
  from 48000 down to 18000. Without overflow checks, the walkthrough schedule with
  \<open>10 ^ 11\<close> units claimed three years in takes it from 0 down to \<open>-71235604338\<close>.
\<close>

theorem C5_counterexample:
  "create_employee_vesting example_address 1677360 Map.empty example_request 0 100 (- 5) 50
     = (Inr (), [1005 \<mapsto> \<lparr>beneficiary = 3, start_time = 0, end_time = 100,
                total_amount = - 5, total_withdrawn = 0, cliff_time = 50,
                vesting_account = 2, bump = 253\<rparr>]) \<and>
   sint (- 5 :: i64) < sint (0 :: i64) \<and>
   create_employee_vesting example_address 1677360 Map.empty example_request 100 200 1000 0
     = (Inr (), [1005 \<mapsto> \<lparr>beneficiary = 3, start_time = 100, end_time = 200,
                total_amount = 1000, total_withdrawn = 0, cliff_time = 0,
                vesting_account = 2, bump = 253\<rparr>]) \<and>
   claim_all True \<lparr>beneficiary = 3, start_time = 100, end_time = 200,
                total_amount = 1000, total_withdrawn = 0, cliff_time = 0,
                vesting_account = 2, bump = 253\<rparr> [(50, \<lambda>amount. True)]
     = \<lparr>beneficiary = 3, start_time = 100, end_time = 200,
                total_amount = 1000, total_withdrawn = - 500, cliff_time = 0,
                vesting_account = 2, bump = 253\<rparr> \<and>
   sint (- 500 :: i64) < sint (0 :: i64) \<and>
   total_withdrawn (claim_all True scenario_schedule [(126144000, \<lambda>amount. True)]) = 48000 \<and>
   total_withdrawn (claim_all True scenario_schedule
      [(126144000, \<lambda>amount. True), (47304000, \<lambda>amount. True)]) = 18000 \<and>
   sint (18000 :: i64) < sint (48000 :: i64) \<and>
   total_withdrawn (claim_all False (schedule 0 31536000 126144000 100000000000 0)
      [(94608000, \<lambda>amount. True)]) = - 71235604338 \<and>
   sint (- 71235604338 :: i64) < sint (0 :: i64)"
  by (simp add: create_employee_vesting_def example_address_def example_request_def acme_def
        claim_eval)

subsection \<open>C6: the two guards of a claim\<close>

text \<open>
  C6. A claim before the cliff returns \<open>ClaimNotAvailableYet\<close>, whatever the calculation
  would give, and leaves the account as it was. A claim from the cliff on whose claimable
  amount is computed as 0 returns \<open>NothingToClaim\<close> and leaves the account as it was.
\<close>

theorem C6_claim_guards:
  "(sint now < sint (cliff_time s) \<longrightarrow>
      claim_tokens oc xfer s now = (Inl (Custom ClaimNotAvailableYet), s)) \<and>
   (sint (cliff_time s) \<le> sint now \<and> claimable_amount oc s now = Inr 0 \<longrightarrow>
      claim_tokens oc xfer s now = (Inl (Custom NothingToClaim), s))"
  by (simp add: claim_before_cliff claim_nothing)

text \<open>
  The theorem at the walkthrough schedule: before the cliff with a claimable amount of 0 the
  answer is \<open>ClaimNotAvailableYet\<close>, so the cliff guard comes first; at 18 months with
  18000 already withdrawn the answer is \<open>NothingToClaim\<close>.
\<close>

theorem C6_witness:
  "sint (15768000 :: i64) < sint (cliff_time (schedule 0 31536000 126144000 48000 6000)) \<and>
   claimable_amount True (schedule 0 31536000 126144000 48000 6000) 15768000 = Inr 0 \<and>
   claim_tokens True (\<lambda>amount. True) (schedule 0 31536000 126144000 48000 6000) 15768000
     = (Inl (Custom ClaimNotAvailableYet), schedule 0 31536000 126144000 48000 6000) \<and>
   sint (cliff_time (schedule 0 31536000 126144000 48000 18000)) \<le> sint (47304000 :: i64) \<and>
   claimable_amount True (schedule 0 31536000 126144000 48000 18000) 47304000 = Inr 0 \<and>
   claim_tokens True (\<lambda>amount. True) (schedule 0 31536000 126144000 48000 18000) 47304000
     = (Inl (Custom NothingToClaim), schedule 0 31536000 126144000 48000 18000)"
proof -
  have a: "sint (15768000 :: i64) < sint (cliff_time (schedule 0 31536000 126144000 48000 6000))"
    by (simp add: schedule_def)
  have b: "claimable_amount True (schedule 0 31536000 126144000 48000 6000) 15768000 = Inr 0"
    by (simp add: claim_eval)
  have c: "sint (cliff_time (schedule 0 31536000 126144000 48000 18000)) \<le> sint (47304000 :: i64)"
    by (simp add: schedule_def)
  have d: "claimable_amount True (schedule 0 31536000 126144000 48000 18000) 47304000 = Inr 0"
    by (simp add: claim_eval)
  show ?thesis
    using a b c d
      C6_claim_guards [of 15768000 "schedule 0 31536000 126144000 48000 6000" True "\<lambda>amount. True"]
      C6_claim_guards [of 47304000 "schedule 0 31536000 126144000 48000 18000" True "\<lambda>amount. True"]
    by simp
qed

subsection \<open>C7: a second claim at the same time\<close>

text \<open>
  C7. A schedule with the largest total, cliff on 1 January 2025, start one second and end
  two seconds later, and a token program that accepts every transfer. The claim at the
  cliff, before the start, has a vested amount of \<open>- i64::MAX\<close> and withdraws that. At
  the end the difference \<open>i64::MAX - (- i64::MAX)\<close> saturates to \<open>i64::MAX\<close>: the
  claim succeeds and leaves \<open>total_withdrawn = 0\<close>. The second claim at the same time
  succeeds again and releases \<open>i64::MAX\<close> once more, in both builds.
\<close>

theorem C7_second_claim_pays_again:
  "claim_tokens True (\<lambda>amount. True) (schedule 1735689601 1735689600 1735689602 9223372036854775807 0) 1735689600
     = (Inr (), schedule 1735689601 1735689600 1735689602 9223372036854775807 (- 9223372036854775807)) \<and>
   claim_tokens True (\<lambda>amount. True) (schedule 1735689601 1735689600 1735689602 9223372036854775807 (- 9223372036854775807)) 1735689602
     = (Inr (), schedule 1735689601 1735689600 1735689602 9223372036854775807 0) \<and>
   claim_tokens True (\<lambda>amount. True) (schedule 1735689601 1735689600 1735689602 9223372036854775807 0) 1735689602
     = (Inr (), schedule 1735689601 1735689600 1735689602 9223372036854775807 9223372036854775807) \<and>
   claim_tokens False (\<lambda>amount. True) (schedule 1735689601 1735689600 1735689602 9223372036854775807 0) 1735689600
     = (Inr (), schedule 1735689601 1735689600 1735689602 9223372036854775807 (- 9223372036854775807)) \<and>
   claim_tokens False (\<lambda>amount. True) (schedule 1735689601 1735689600 1735689602 9223372036854775807 (- 9223372036854775807)) 1735689602
     = (Inr (), schedule 1735689601 1735689600 1735689602 9223372036854775807 0) \<and>
   claim_tokens False (\<lambda>amount. True) (schedule 1735689601 1735689600 1735689602 9223372036854775807 0) 1735689602
     = (Inr (), schedule 1735689601 1735689600 1735689602 9223372036854775807 9223372036854775807) \<and>
   claimable_amount True (schedule 1735689601 1735689600 1735689602 9223372036854775807 (- 9223372036854775807)) 1735689602 = Inr 9223372036854775807"
  by (simp add: claim_eval)

subsection \<open>C8: the vested amount over time\<close>

text \<open>
  C8. The schedule of the documentation's example with a total of \<open>10 ^ 11\<close> units, a
  hundred tokens of a mint with nine decimals. On 1 January 2026 the vested amount is
  50000000000. On 1 January 2027 the product exceeds \<open>i64::MAX\<close>: with overflow checks
  the calculation panics and yields no amount; without them it yields
  \<open>-71069755358\<close>, below the amount a year earlier. The exact value there is
  74965800273.
\<close>

theorem C8_later_amount_lower:
  "vested_amount True (schedule 1704067200 1735689600 1830384000 100000000000 0) 1767225600
     = Inr 50000000000 \<and>
   vested_amount False (schedule 1704067200 1735689600 1830384000 100000000000 0) 1767225600
     = Inr 50000000000 \<and>
   vested_amount True (schedule 1704067200 1735689600 1830384000 100000000000 0) 1798761600
     = Inl (Panicked MultiplyOverflow) \<and>
   vested_amount False (schedule 1704067200 1735689600 1830384000 100000000000 0) 1798761600
     = Inr (- 71069755358) \<and>
   sint (1767225600 :: i64) \<le> sint (1798761600 :: i64) \<and>
   sint (- 71069755358 :: i64) < sint (50000000000 :: i64) \<and>
   (100000000000 * (1798761600 - 1704067200)) div (1830384000 - 1704067200)
     = (74965800273 :: int)"
  by (simp add: claim_eval)

subsection \<open>C9: creation does not look at the amount\<close>

text \<open>
  C9, as amended. \<open>create_employee_vesting\<close> does not validate the total: whether a call
  succeeds, and the failure it reports otherwise, is the same for every total, and a
  successful call stores the record with the total as given and \<open>total_withdrawn = 0\<close>.
\<close>

theorem C9_create_ignores_amount:
  "fst (create_employee_vesting find_program_address rent accounts request
          start finish amount cliff)
     = fst (create_employee_vesting find_program_address rent accounts request
              start finish amount' cliff) \<and>
   (fst (create_employee_vesting find_program_address rent accounts request
           start finish amount cliff) = Inr () \<longrightarrow>
      snd (create_employee_vesting find_program_address rent accounts request
             start finish amount cliff)
        = accounts(fst (find_program_address (beneficiary_key request)
                          (vesting_account_key request)) \<mapsto>
            \<lparr>beneficiary = beneficiary_key request, start_time = start, end_time = finish,
             total_amount = amount, total_withdrawn = 0, cliff_time = cliff,
             vesting_account = vesting_account_key request,
             bump = snd (find_program_address (beneficiary_key request)
                           (vesting_account_key request))\<rparr>))"
  by (auto simp: create_employee_vesting_def split: option.splits prod.splits)

text \<open>
  The theorem at the example request in an empty store, with totals \<open>-5\<close> and 1000:
  both calls succeed, and the first stores a total of \<open>-5\<close>.
\<close>

theorem C9_witness:
  "fst (create_employee_vesting example_address 1677360 Map.empty example_request
          0 100 (- 5) 50) = Inr () \<and>
   fst (create_employee_vesting example_address 1677360 Map.empty example_request
          0 100 1000 50) = Inr () \<and>
   snd (create_employee_vesting example_address 1677360 Map.empty example_request
          0 100 (- 5) 50)
     = [1005 \<mapsto> \<lparr>beneficiary = 3, start_time = 0, end_time = 100, total_amount = - 5,
                   total_withdrawn = 0, cliff_time = 50, vesting_account = 2, bump = 253\<rparr>]"
proof -
  have ok: "fst (create_employee_vesting example_address 1677360 Map.empty example_request
                   0 100 (- 5) 50) = Inr ()"
    by (simp add: create_employee_vesting_def example_address_def example_request_def acme_def)
  show ?thesis
    using ok
      C9_create_ignores_amount [of example_address 1677360 Map.empty example_request
        0 100 "- 5" 50 1000]
    by (simp add: example_address_def example_request_def)
qed

text \<open>
  C9 as stated fails: with every account check passed, a total of 0 is accepted and the
  record is created.
\<close>

theorem C9_counterexample:
  "create_employee_vesting example_address 1677360 Map.empty example_request 0 100 0 50
     = (Inr (), [1005 \<mapsto> \<lparr>beneficiary = 3, start_time = 0, end_time = 100,
                total_amount = 0, total_withdrawn = 0, cliff_time = 50,
                vesting_account = 2, bump = 253\<rparr>])"
  by (simp add: create_employee_vesting_def example_address_def example_request_def acme_def)

subsection \<open>C10: a claim between a cliff and a later start\<close>

text \<open>
  C10, as amended. Take a schedule with the cliff before the start, a positive total, the
  end after the start, a vesting time that fits \<open>i64\<close> and nothing withdrawn, and a time
  from the cliff on and before the start at which the product
  \<open>total_amount * (now - start_time)\<close> is at least \<open>i64::MIN\<close>. The claimable amount is
  \<open>- floor (total_amount * (start_time - now) / (end_time - start_time))\<close>. When
  \<open>total_amount * (start_time - now)\<close> reaches \<open>end_time - start_time\<close> it is strictly
  negative: the zero guard does not fire, the transfer is requested for the amount read as
  \<open>u64\<close>, that is \<open>2 ^ 64\<close> more, and on acceptance \<open>total_withdrawn\<close> becomes that
  negative amount. Otherwise the division rounds to 0 and the claim returns
  \<open>NothingToClaim\<close>.
\<close>

theorem C10_negative_claimable:
  assumes cliff: "sint (cliff_time s) \<le> sint now"
    and before: "sint now < sint (start_time s)"
    and dur: "sint (start_time s) < sint (end_time s)"
    and amount: "0 < sint (total_amount s)"
    and fresh: "total_withdrawn s = 0"
    and product: "i64_MIN \<le> sint (total_amount s) * (sint now - sint (start_time s))"
    and nosat: "sint (end_time s) - sint (start_time s) \<le> i64_MAX"
  shows "\<exists>c. claimable_amount oc s now = Inr c \<and>
             sint c = - ((sint (total_amount s) * (sint (start_time s) - sint now))
                           div (sint (end_time s) - sint (start_time s))) \<and>
             (if sint (end_time s) - sint (start_time s)
                   \<le> sint (total_amount s) * (sint (start_time s) - sint now)
              then sint c < 0 \<and> uint c = 2 ^ 64 + sint c \<and>
                   claim_tokens oc xfer s now =
                     (if xfer c then (Inr (), s\<lparr>total_withdrawn := c\<rparr>)
                      else (Inl TokenProgramError, s))
              else c = 0 \<and> claim_tokens oc xfer s now = (Inl (Custom NothingToClaim), s))"
proof -
  let ?T = "sint (total_amount s)"
  let ?e = "sint now - sint (start_time s)"
  let ?d = "sint (end_time s) - sint (start_time s)"
  let ?q = "(?T * (sint (start_time s) - sint now)) div ?d"
  have eneg: "?e < 0" using before by simp
  have dpos: "0 < ?d" using dur by simp
  have "?T * ?e \<le> 1 * ?e"
    using amount eneg by (intro mult_right_mono_neg) simp_all
  then have elow: "i64_MIN \<le> ?e" using product by simp
  have e: "sint (saturating_sub now (start_time s)) = ?e"
    using elow eneg by (simp add: sint_saturating_sub i64_MAX_def)
  have d: "sint (saturating_sub (end_time s) (start_time s)) = ?d"
    using dur nosat by (intro sint_total_vesting_time) simp_all
  have pneg: "?T * ?e \<le> 0" using amount eneg by (simp add: mult_le_0_iff)
  have pfits: "fits_i64 (?T * ?e)"
    using product pneg by (simp add: fits_i64_def i64_MAX_def)
  have flip: "- (?T * ?e) = ?T * (sint (start_time s) - sint now)"
    by (simp add: algebra_simps)
  define c :: i64 where "c = word_of_int (quot (?T * ?e) ?d)"
  have v: "vested_amount oc s now = Inr c"
    using vested_amount_linear [of now s oc] before dur pfits dpos by (simp add: e d c_def)
  have sc: "sint c = - ?q"
    unfolding c_def
    using sint_word_of_int_i64 [OF quot_fits [OF pfits dpos]] quot_nonpos [OF pneg dpos] flip
    by simp
  have cl: "claimable_amount oc s now = Inr c"
    using v fresh by (simp add: claimable_amount_def saturating_sub_zero)
  have nocliff: "\<not> now <s cliff_time s" using cliff by (simp add: word_sless_alt)
  have q0: "0 \<le> ?q" using amount before dpos by (simp add: pos_imp_zdiv_nonneg_iff)
  show ?thesis
  proof (cases "?d \<le> ?T * (sint (start_time s) - sint now)")
    case True
    then have "0 < ?q" using dpos by (simp add: pos_imp_zdiv_pos_iff)
    then have neg: "sint c < 0" using sc by simp
    then have nz: "c \<noteq> 0" by auto
    have add: "i64_add oc (total_withdrawn s) c = Inr c"
      using fresh sint_fits_i64 [of c] by (simp add: i64_add_def)
    have "claim_tokens oc xfer s now =
            (if xfer c then (Inr (), s\<lparr>total_withdrawn := c\<rparr>) else (Inl TokenProgramError, s))"
      using nocliff cl nz add by (simp add: claim_tokens_def)
    then show ?thesis using cl sc neg uint_negative_i64 [OF neg] True by auto
  next
    case False
    moreover have "0 \<le> ?T * (sint (start_time s) - sint now)"
      using amount before by simp
    ultimately have "?q = 0" by simp
    then have "sint c = 0" using sc by simp
    then have c0: "c = 0" using word_eq_iff_signed [of c 0, where ?'a = int] by simp
    have "claim_tokens oc xfer s now = (Inl (Custom NothingToClaim), s)"
      using nocliff cl c0 by (simp add: claim_tokens_def)
    then show ?thesis using cl sc c0 False by auto
  qed
qed

text \<open>
  The theorem at start 100, end 200, total 1000 and cliff 0, claimed at time 50: the
  claimable amount is \<open>-500\<close>, transferred as 18446744073709551116.
\<close>

theorem C10_witness:
  "sint (cliff_time (schedule 100 0 200 1000 0)) \<le> sint (50 :: i64) \<and>
   sint (50 :: i64) < sint (start_time (schedule 100 0 200 1000 0)) \<and>
   sint (start_time (schedule 100 0 200 1000 0)) < sint (end_time (schedule 100 0 200 1000 0)) \<and>
   0 < sint (total_amount (schedule 100 0 200 1000 0)) \<and>
   total_withdrawn (schedule 100 0 200 1000 0) = 0 \<and>
   i64_MIN \<le> sint (total_amount (schedule 100 0 200 1000 0))
       * (sint (50 :: i64) - sint (start_time (schedule 100 0 200 1000 0))) \<and>
   sint (end_time (schedule 100 0 200 1000 0)) - sint (start_time (schedule 100 0 200 1000 0))
     \<le> i64_MAX \<and>
   (\<exists>c. claimable_amount True (schedule 100 0 200 1000 0) 50 = Inr c \<and> sint c = - 500 \<and>
        uint c = 18446744073709551116 \<and>
        claim_tokens True (\<lambda>amount. True) (schedule 100 0 200 1000 0) 50
          = (Inr (), (schedule 100 0 200 1000 0)\<lparr>total_withdrawn := c\<rparr>))"
  using C10_negative_claimable [of "schedule 100 0 200 1000 0" 50 True "\<lambda>amount. True"]
  by (auto simp: schedule_def i64_MIN_def i64_MAX_def)

text \<open>
  C10 as stated fails: with a total of 1, start 10, end 20 and cliff 0, at time 9 the
  quotient \<open>-1 / 10\<close> rounds to 0, the claimable amount is 0 and the claim returns
  \<open>NothingToClaim\<close>.
\<close>

theorem C10_counterexample:
  "claimable_amount True (schedule 10 0 20 1 0) 9 = Inr 0 \<and>
   claimable_amount False (schedule 10 0 20 1 0) 9 = Inr 0 \<and>
   claim_tokens True (\<lambda>amount. True) (schedule 10 0 20 1 0) 9
     = (Inl (Custom NothingToClaim), schedule 10 0 20 1 0) \<and>
   claim_tokens False (\<lambda>amount. True) (schedule 10 0 20 1 0) 9
     = (Inl (Custom NothingToClaim), schedule 10 0 20 1 0)"
  by (simp add: claim_eval)

end
